theory Spec2Isabelle
  imports Complex_Main "HOL-Library.Word" "HOL-Library.Multiset" "HOL-Library.Log_Nat"
begin

section \<open>The Monte Carlo core of \<open>threaded_mc/common_mc.c\<close>\<close>

text \<open>
  The file \<open>common_mc.c\<close> holds the shared part of a parallel Monte Carlo estimator: the
  run parameters, the running sums of a batch and of the whole run, the merge of a batch
  into the run's sums, the convergence test, the batch loop and the command-line
  processing.

  Conventions of this embedding.
  \<^item> A C \<open>int\<close> is a \<open>32 word\<close> and a C \<open>long\<close> a \<open>64 word\<close> (LP64), read as two's
    complement by \<open>sint\<close>; comparisons are the signed ones (\<open><s\<close>, \<open>\<le>s\<close>) and \<open>+\<close> wraps.
  \<^item> A C \<open>double\<close> is an IEEE 754 binary64 number: a finite value, one of the two zeros,
    an infinity or NaN. Every arithmetic operation returns the exact result rounded to
    the nearest binary64 number, ties to the even significand, with gradual underflow,
    signed zeros and overflow to infinity; comparisons with NaN are false. Each C
    expression is evaluated in binary64 as it is written (no extended precision and no
    fused multiply-add).
  \<^item> A function of the source that writes through a pointer takes the object and
    returns it updated. The header \<open>common_mc.h\<close> is not among the sources: the records
    hold the fields the code uses, with the types its uses show (\<open>%ld\<close>, \<open>atol\<close> and
    \<open>long maxtrials = param->maxtrials\<close>; \<open>%d\<close> and \<open>atoi\<close> for \<open>nbatch\<close>;
    \<open>long ntrials = result->ntrials\<close>), and the functions are written for every
    extension of the records, so a field the header may add is carried along unchanged.
\<close>

subsection \<open>Machine integers\<close>

type_synonym c_int = "32 word"
type_synonym c_long = "64 word"

subsection \<open>Doubles\<close>

text \<open>A double is \<open>Fin x\<close> for a finite value \<open>x\<close> (\<open>Fin 0\<close> is the positive zero), the
  negative zero \<open>MZero\<close>, an infinity or NaN. A value \<open>Fin x\<close> is a binary64 number when \<open>x\<close>
  is representable; every operation below rounds, so it returns such values, and what
  is proved for all values of the type holds for the binary64 numbers among them.\<close>

datatype double = Fin rat | MZero | PInf | NInf | NaN

fun valof :: "double \<Rightarrow> rat" where
  "valof (Fin x) = x"
| "valof MZero = 0"
| "valof PInf = 0"
| "valof NInf = 0"
| "valof NaN = 0"

text \<open>The sign bit.\<close>

fun is_neg :: "double \<Rightarrow> bool" where
  "is_neg (Fin x) = (x < 0)"
| "is_neg MZero = True"
| "is_neg PInf = False"
| "is_neg NInf = True"
| "is_neg NaN = False"

definition is_zero :: "double \<Rightarrow> bool" where
  "is_zero x = (x = Fin 0 \<or> x = MZero)"

definition is_inf :: "double \<Rightarrow> bool" where
  "is_inf x = (x = PInf \<or> x = NInf)"

text \<open>Rounding to the nearest binary64 number. For \<open>a > 0\<close>, \<open>ilog2 a\<close> is the integer \<open>l\<close>
  with \<open>2\<^sup>l \<le> a < 2\<^sup>l\<^sup>+\<^sup>1\<close>; the spacing of the binary64 numbers around \<open>a\<close> is \<open>2\<^sup>e\<close> with
  \<open>e = max (l - 52) (-1074)\<close> (53 bits of significand; \<open>2\<^sup>-\<^sup>1\<^sup>0\<^sup>7\<^sup>4\<close> is the smallest subnormal
  number); \<open>round_even\<close> is the nearest integer, the even one of two that are equally
  near. A result of magnitude \<open>2\<^sup>1\<^sup>0\<^sup>2\<^sup>4\<close> or more is an infinity, a result that rounds to
  zero keeps the sign.\<close>

definition ilog2 :: "rat \<Rightarrow> int" where
  "ilog2 a = (if 1 \<le> a then bitlen \<lfloor>a\<rfloor> - 1 else - bitlen (\<lceil>1 / a\<rceil> - 1))"

definition round_even :: "rat \<Rightarrow> int" where
  "round_even m =
     (let f = \<lfloor>m\<rfloor>; r = m - of_int f
      in if r < 1 / 2 then f else if 1 / 2 < r then f + 1 else if even f then f else f + 1)"

definition round_mag :: "rat \<Rightarrow> rat" where
  "round_mag a =
     (let e = max (ilog2 a - 52) (- 1074)
      in of_int (round_even (a / 2 powi e)) * 2 powi e)"

definition round_to_double :: "rat \<Rightarrow> double" where
  "round_to_double x =
     (if x = 0 then Fin 0
      else let r = round_mag \<bar>x\<bar>
           in if 2 powi 1024 \<le> r then (if 0 < x then PInf else NInf)
              else if r = 0 then (if 0 < x then Fin 0 else MZero)
              else Fin (if 0 < x then r else - r))"

instantiation double :: "{zero, plus, uminus, minus, times, inverse, ord}"
begin

definition zero_double :: double where
  "zero_double = Fin 0"

text \<open>An exact sum of zero is the positive zero, except for the sum of two negative
  zeros.\<close>

definition plus_double :: "double \<Rightarrow> double \<Rightarrow> double" where
  "plus_double x y =
     (if x = NaN \<or> y = NaN then NaN
      else if x = PInf then (if y = NInf then NaN else PInf)
      else if x = NInf then (if y = PInf then NaN else NInf)
      else if y = PInf then PInf
      else if y = NInf then NInf
      else if valof x + valof y = 0 then (if x = MZero \<and> y = MZero then MZero else Fin 0)
      else round_to_double (valof x + valof y))"

fun uminus_double :: "double \<Rightarrow> double" where
  "uminus_double (Fin x) = (if x = 0 then MZero else Fin (- x))"
| "uminus_double MZero = Fin 0"
| "uminus_double PInf = NInf"
| "uminus_double NInf = PInf"
| "uminus_double NaN = NaN"

definition minus_double :: "double \<Rightarrow> double \<Rightarrow> double" where
  "minus_double x y = x + (- y)"

text \<open>The sign of a product and of a quotient is the exclusive or of the signs.\<close>

definition times_double :: "double \<Rightarrow> double \<Rightarrow> double" where
  "times_double x y =
     (if x = NaN \<or> y = NaN then NaN
      else if is_inf x \<or> is_inf y
        then (if is_zero x \<or> is_zero y then NaN
              else if is_neg x \<noteq> is_neg y then NInf else PInf)
      else if valof x * valof y = 0 then (if is_neg x \<noteq> is_neg y then MZero else Fin 0)
      else round_to_double (valof x * valof y))"

definition divide_double :: "double \<Rightarrow> double \<Rightarrow> double" where
  "divide_double x y =
     (if x = NaN \<or> y = NaN then NaN
      else if is_inf x
        then (if is_inf y then NaN else if is_neg x \<noteq> is_neg y then NInf else PInf)
      else if is_inf y then (if is_neg x \<noteq> is_neg y then MZero else Fin 0)
      else if is_zero y
        then (if is_zero x then NaN else if is_neg x \<noteq> is_neg y then NInf else PInf)
      else if is_zero x then (if is_neg x \<noteq> is_neg y then MZero else Fin 0)
      else round_to_double (valof x / valof y))"

definition inverse_double :: "double \<Rightarrow> double" where
  "inverse_double x = Fin 1 div x"

definition less_double :: "double \<Rightarrow> double \<Rightarrow> bool" where
  "less_double x y =
     (x \<noteq> NaN \<and> y \<noteq> NaN \<and> x \<noteq> PInf \<and> y \<noteq> NInf \<and>
      (x = NInf \<or> y = PInf \<or> valof x < valof y))"

definition less_eq_double :: "double \<Rightarrow> double \<Rightarrow> bool" where
  "less_eq_double x y =
     (x \<noteq> NaN \<and> y \<noteq> NaN \<and>
      (x = NInf \<or> y = PInf \<or> (x \<noteq> PInf \<and> y \<noteq> NInf \<and> valof x \<le> valof y)))"

instance ..

end

text \<open>The conversion of a \<open>long\<close> to a \<open>double\<close> (\<open>double ntrials = result->ntrials\<close>, and
  the usual arithmetic conversion in \<open>ntrials > maxtrials\<close>) rounds to the nearest
  double; the conversion of an \<open>int\<close> to a \<open>long\<close> (\<open>result->ntrials = nbatch\<close>) keeps the
  value.\<close>

definition long_to_double :: "c_long \<Rightarrow> double" where
  "long_to_double n = round_to_double (of_int (sint n))"

definition int_to_long :: "c_int \<Rightarrow> c_long" where
  "int_to_long n = scast n"

subsection \<open>Parameters and results\<close>

record mc_param_t =
  verbose :: c_int
  rtol :: double
  maxtrials :: c_long
  nbatch :: c_int

record mc_result_t =
  sum_X :: double
  sum_X2 :: double
  ntrials :: c_long

text \<open>The literal \<open>1e-4\<close> is the double nearest to \<open>1/10000\<close>.\<close>

definition mc_param_init :: "'a mc_param_t_scheme \<Rightarrow> 'a mc_param_t_scheme" where
  "mc_param_init param =
     param\<lparr>verbose := 1, rtol := round_to_double (1 / 10000), maxtrials := 10000000, nbatch := 5000\<rparr>"

definition mc_result_init :: "'a mc_result_t_scheme \<Rightarrow> 'a mc_result_t_scheme" where
  "mc_result_init result = result\<lparr>sum_X := 0, sum_X2 := 0, ntrials := 0\<rparr>"

text \<open>\<open>mc_result_update(result, batch)\<close>, for two objects that are not the same one: the
  updated \<open>*result\<close>.\<close>

definition mc_result_update ::
  "'a mc_result_t_scheme \<Rightarrow> 'b mc_result_t_scheme \<Rightarrow> 'a mc_result_t_scheme" where
  "mc_result_update result batch =
     result\<lparr>sum_X := sum_X result + sum_X batch,
            sum_X2 := sum_X2 result + sum_X2 batch,
            ntrials := ntrials result + ntrials batch\<rparr>"

text \<open>The same function on an explicit store, where \<open>result\<close> and \<open>batch\<close> are addresses
  (and may be the same address): its three assignments, one after the other.\<close>

type_synonym 'a store = "nat \<Rightarrow> 'a mc_result_t_scheme"

definition mc_result_update_store :: "'a store \<Rightarrow> nat \<Rightarrow> nat \<Rightarrow> 'a store" where
  "mc_result_update_store s result batch =
     (let s1 = s(result := (s result)\<lparr>sum_X := sum_X (s result) + sum_X (s batch)\<rparr>);
          s2 = s1(result := (s1 result)\<lparr>sum_X2 := sum_X2 (s1 result) + sum_X2 (s1 batch)\<rparr>);
          s3 = s2(result := (s2 result)\<lparr>ntrials := ntrials (s2 result) + ntrials (s2 batch)\<rparr>)
      in s3)"

subsection \<open>The convergence test\<close>

text \<open>The C function returns the \<open>int\<close> value of \<open>a || b\<close>, which is 1 or 0; the model
  returns the truth value.\<close>

definition is_converged :: "'a mc_param_t_scheme \<Rightarrow> 'b mc_result_t_scheme \<Rightarrow> bool" where
  "is_converged param result =
     (let rtol' = rtol param;
          maxtrials' = maxtrials param;
          ntrials' = long_to_double (ntrials result);
          EX' = sum_X result / ntrials';
          EX2' = sum_X2 result / ntrials';
          varX = EX2' - EX' * EX';
          varEst = varX / ntrials'
      in (varEst / (EX' * EX') < rtol' * rtol' \<or> long_to_double maxtrials' < ntrials'))"

text \<open>The values of the local variables \<open>EX\<close> and \<open>varEst\<close> of \<open>is_converged\<close>, for the
  statements about the division \<open>varEst/(EX*EX)\<close> of its last line.\<close>

definition is_converged_EX :: "'b mc_result_t_scheme \<Rightarrow> double" where
  "is_converged_EX result =
     (let ntrials' = long_to_double (ntrials result);
          EX' = sum_X result / ntrials'
      in EX')"

definition is_converged_varEst :: "'b mc_result_t_scheme \<Rightarrow> double" where
  "is_converged_varEst result =
     (let ntrials' = long_to_double (ntrials result);
          EX' = sum_X result / ntrials';
          EX2' = sum_X2 result / ntrials';
          varX = EX2' - EX' * EX';
          varEst = varX / ntrials'
      in varEst)"

subsection \<open>Trials\<close>

text \<open>The generator \<open>genrand\<close> of \<open>mt19937p.h\<close> is not among the sources. It is a
  parameter here: a function from the generator's state to the value drawn and the next
  state.\<close>

definition run_trial :: "('mt \<Rightarrow> double \<times> 'mt) \<Rightarrow> 'mt \<Rightarrow> double \<times> 'mt" where
  "run_trial genrand mt = (let (X, mt') = genrand mt in (X, mt'))"

text \<open>The loop \<open>for (t = 0; t < nbatch; ++t)\<close> of \<open>run_trials\<close>, from the counter \<open>t\<close> on.\<close>

function run_trials_loop ::
  "('mt \<Rightarrow> double \<times> 'mt) \<Rightarrow> c_int \<Rightarrow> c_int \<Rightarrow> 'mt \<Rightarrow> double \<Rightarrow> double \<Rightarrow> 'mt \<times> double \<times> double"
where
  "run_trials_loop genrand nbatch' t mt sum_X' sum_X2' =
     (if t <s nbatch'
      then (let (X, mt') = run_trial genrand mt
            in run_trials_loop genrand nbatch' (t + 1) mt' (sum_X' + X) (sum_X2' + X * X))
      else (mt, sum_X', sum_X2'))"
  by pat_completeness auto
termination
proof (relation "measure (\<lambda>(genrand, nbatch', t, mt, sum_X', sum_X2'). nat (sint nbatch' - sint t))")
  show "wf (measure (\<lambda>(genrand :: 'mt \<Rightarrow> double \<times> 'mt, nbatch' :: c_int, t :: c_int,
      mt :: 'mt, sum_X' :: double, sum_X2' :: double). nat (sint nbatch' - sint t)))"
    by simp
next
  fix genrand :: "'mt \<Rightarrow> double \<times> 'mt" and nbatch' t :: c_int and mt :: 'mt
    and sum_X' sum_X2' X :: double and mt' :: 'mt
  assume lt: "t <s nbatch'"
  have "sint nbatch' < 2 ^ 31"
    using sint_lt [of nbatch'] by simp
  moreover have "- (2 ^ 31) \<le> sint t"
    using sint_ge [of t] by simp
  ultimately have "sint (t + 1) = sint t + 1"
    using lt by (simp add: word_sless_alt sint_word_ariths signed_take_bit_int_eq_self)
  then show "((genrand, nbatch', t + 1, mt', sum_X' + X, sum_X2' + X * X),
      (genrand, nbatch', t, mt, sum_X', sum_X2')) \<in>
      measure (\<lambda>(genrand, nbatch', t, mt, sum_X', sum_X2'). nat (sint nbatch' - sint t))"
    using lt by (simp add: word_sless_alt)
qed

declare run_trials_loop.simps [simp del]

definition run_trials ::
  "('mt \<Rightarrow> double \<times> 'mt) \<Rightarrow> 'mt \<Rightarrow> c_int \<Rightarrow> 'a mc_result_t_scheme \<Rightarrow> 'mt \<times> 'a mc_result_t_scheme"
where
  "run_trials genrand mt nbatch' result =
     (let (mt', sum_X', sum_X2') = run_trials_loop genrand nbatch' 0 mt 0 0
      in (mt', result\<lparr>sum_X := sum_X', sum_X2 := sum_X2', ntrials := int_to_long nbatch'\<rparr>))"

text \<open>For the statements about \<open>run_trials\<close>: the values that the first \<open>n\<close> calls of
  \<open>genrand\<close> return from the state \<open>mt\<close> on, and the state they leave.\<close>

fun drawn_values :: "('mt \<Rightarrow> double \<times> 'mt) \<Rightarrow> nat \<Rightarrow> 'mt \<Rightarrow> double list" where
  "drawn_values genrand 0 mt = []"
| "drawn_values genrand (Suc n) mt = fst (genrand mt) # drawn_values genrand n (snd (genrand mt))"

fun state_after :: "('mt \<Rightarrow> double \<times> 'mt) \<Rightarrow> nat \<Rightarrow> 'mt \<Rightarrow> 'mt" where
  "state_after genrand 0 mt = mt"
| "state_after genrand (Suc n) mt = state_after genrand n (snd (genrand mt))"

subsection \<open>Command-line processing\<close>

text \<open>The library functions \<open>getopt\<close>, \<open>atoi\<close>, \<open>atol\<close> and \<open>atof\<close> are not part of the
  repository. The model takes what they return: the list of the results of the
  successive calls \<open>getopt(argc, argv, "p:t:n:b:v:")\<close> before it returns \<open>-1\<close>, each an
  option character of the option string with its converted argument (\<open>atoi(optarg)\<close> for
  \<open>-p\<close>, \<open>-b\<close> and \<open>-v\<close>, \<open>atof(optarg)\<close> for \<open>-t\<close>, \<open>atol(optarg)\<close> for \<open>-n\<close>) or the
  character \<open>?\<close> with the value of \<open>optopt\<close>; and the values of \<open>optind\<close> and \<open>argc\<close> after
  the loop. The macro \<open>MAX_MC_THREADS\<close> of the missing header is a parameter.\<close>

datatype getopt_result =
    Opt_p c_int
  | Opt_t double
  | Opt_n c_long
  | Opt_b c_int
  | Opt_v c_int
  | Opt_unknown char

text \<open>Every failure is \<open>exit(-1)\<close> after a message on \<open>stderr\<close>; the error value names the
  message.\<close>

datatype exit_message =
    Nthreads_range
  | Rtol_positive
  | Maxtrials_positive
  | Nbatch_positive
  | Requires_argument char
  | Unknown_option char
  | No_non_option_arguments

fun getopt_loop ::
  "c_int \<Rightarrow> getopt_result list \<Rightarrow> c_int \<Rightarrow> 'a mc_param_t_scheme \<Rightarrow>
   exit_message + c_int \<times> 'a mc_param_t_scheme"
where
  "getopt_loop MAX_MC_THREADS [] nthreads param = Inr (nthreads, param)"
| "getopt_loop MAX_MC_THREADS (Opt_p n # cs) nthreads param =
     (let nthreads = n
      in if nthreads \<le>s 0 \<or> MAX_MC_THREADS <s nthreads then Inl Nthreads_range
         else getopt_loop MAX_MC_THREADS cs nthreads param)"
| "getopt_loop MAX_MC_THREADS (Opt_t x # cs) nthreads param =
     (let param = param\<lparr>rtol := x\<rparr>
      in if rtol param < 0 then Inl Rtol_positive
         else getopt_loop MAX_MC_THREADS cs nthreads param)"
| "getopt_loop MAX_MC_THREADS (Opt_n n # cs) nthreads param =
     (let param = param\<lparr>maxtrials := n\<rparr>
      in if maxtrials param <s 1 then Inl Maxtrials_positive
         else getopt_loop MAX_MC_THREADS cs nthreads param)"
| "getopt_loop MAX_MC_THREADS (Opt_b n # cs) nthreads param =
     (let param = param\<lparr>nbatch := n\<rparr>
      in if nbatch param <s 1 then Inl Nbatch_positive
         else getopt_loop MAX_MC_THREADS cs nthreads param)"
| "getopt_loop MAX_MC_THREADS (Opt_v n # cs) nthreads param =
     getopt_loop MAX_MC_THREADS cs nthreads (param\<lparr>verbose := n\<rparr>)"
| "getopt_loop MAX_MC_THREADS (Opt_unknown optopt # cs) nthreads param =
     (if optopt = CHR ''p'' \<or> optopt = CHR ''t'' \<or> optopt = CHR ''n'' \<or> optopt = CHR ''b''
         \<or> optopt = CHR ''v''
      then Inl (Requires_argument optopt)
      else Inl (Unknown_option optopt))"

definition process_args ::
  "c_int \<Rightarrow> getopt_result list \<Rightarrow> c_int \<Rightarrow> c_int \<Rightarrow> 'a mc_param_t_scheme \<Rightarrow>
   exit_message + c_int \<times> 'a mc_param_t_scheme"
where
  "process_args MAX_MC_THREADS getopt_results optind argc param =
     (let nthreads = 0;
          param = mc_param_init param
      in case getopt_loop MAX_MC_THREADS getopt_results nthreads param of
           Inl e \<Rightarrow> Inl e
         | Inr (nthreads, param) \<Rightarrow>
             if optind <s argc then Inl No_non_option_arguments
             else Inr (nthreads, param))"

section \<open>Properties\<close>

subsection \<open>Rounding to a double\<close>

lemma ilog2_lower:
  assumes "0 < a"
  shows "2 powi (ilog2 a) \<le> a"
proof (cases "1 \<le> a")
  case True
  define n where "n = \<lfloor>a\<rfloor>"
  have n: "0 < n"
    using True by (simp add: n_def)
  have b: "1 \<le> bitlen n"
    using n bitlen_eq_zero_iff [of n] bitlen_nonneg [of n] by linarith
  have "(2::int) ^ nat (bitlen n - 1) \<le> n"
    using bitlen_bounds [OF n] by simp
  then have "rat_of_int (2 ^ nat (bitlen n - 1)) \<le> rat_of_int n"
    by (simp only: of_int_le_iff)
  also have "rat_of_int n \<le> a"
    by (simp add: n_def)
  finally have "(2::rat) ^ nat (bitlen n - 1) \<le> a"
    by simp
  moreover have "(2::rat) powi (bitlen n - 1) = 2 ^ nat (bitlen n - 1)"
    using b by (simp add: power_int_def)
  ultimately show ?thesis
    using True by (simp add: ilog2_def n_def)
next
  case False
  define m where "m = \<lceil>1 / a\<rceil> - 1"
  have "1 < 1 / a"
    using False assms by simp
  then have "1 < \<lceil>1 / a\<rceil>"
    by (simp add: less_ceiling_iff)
  then have m: "0 < m"
    by (simp add: m_def)
  have b: "1 \<le> bitlen m"
    using m bitlen_eq_zero_iff [of m] bitlen_nonneg [of m] by linarith
  have "m < 2 ^ nat (bitlen m)"
    using bitlen_bounds [OF m] by simp
  then have "\<lceil>1 / a\<rceil> \<le> 2 ^ nat (bitlen m)"
    by (simp add: m_def)
  then have "1 / a \<le> rat_of_int (2 ^ nat (bitlen m))"
    by (simp only: ceiling_le_iff)
  then have "1 / a \<le> 2 ^ nat (bitlen m)"
    by simp
  then have "1 / 2 ^ nat (bitlen m) \<le> a"
    using assms by (simp add: field_simps)
  moreover have "(2::rat) powi (- bitlen m) = 1 / 2 ^ nat (bitlen m)"
    using b by (simp add: power_int_def field_simps)
  ultimately show ?thesis
    using False by (simp add: ilog2_def m_def)
qed

lemma ilog2_upper:
  assumes "0 < a"
  shows "a < 2 powi (ilog2 a + 1)"
proof (cases "1 \<le> a")
  case True
  define n where "n = \<lfloor>a\<rfloor>"
  have n: "0 < n"
    using True by (simp add: n_def)
  have "n + 1 \<le> 2 ^ nat (bitlen n)"
    using bitlen_bounds [OF n] by simp
  then have "rat_of_int (n + 1) \<le> rat_of_int (2 ^ nat (bitlen n))"
    by (simp only: of_int_le_iff)
  moreover have "a < rat_of_int (n + 1)"
    unfolding n_def using floor_correct [of a] by simp
  ultimately have "a < rat_of_int (2 ^ nat (bitlen n))"
    by (rule order.strict_trans2 [rotated])
  then have "a < 2 ^ nat (bitlen n)"
    by simp
  moreover have "(2::rat) powi (bitlen n) = 2 ^ nat (bitlen n)"
    using bitlen_nonneg [of n] by (simp add: power_int_def)
  ultimately show ?thesis
    using True by (simp add: ilog2_def n_def)
next
  case False
  define m where "m = \<lceil>1 / a\<rceil> - 1"
  have "1 < 1 / a"
    using False assms by simp
  then have "1 < \<lceil>1 / a\<rceil>"
    by (simp add: less_ceiling_iff)
  then have m: "0 < m"
    by (simp add: m_def)
  have b: "1 \<le> bitlen m"
    using m bitlen_eq_zero_iff [of m] bitlen_nonneg [of m] by linarith
  have "2 ^ nat (bitlen m - 1) \<le> m"
    using bitlen_bounds [OF m] by simp
  then have "rat_of_int (2 ^ nat (bitlen m - 1)) \<le> rat_of_int m"
    by (simp only: of_int_le_iff)
  also have "rat_of_int m < 1 / a"
    unfolding m_def using ceiling_correct [of "1 / a"] by simp
  finally have "2 ^ nat (bitlen m - 1) < 1 / a"
    by simp
  then have "a < 1 / 2 ^ nat (bitlen m - 1)"
    using assms by (simp add: field_simps)
  moreover have "(2::rat) powi (- bitlen m + 1) = 1 / 2 ^ nat (bitlen m - 1)"
  proof (cases "bitlen m = 1")
    case True
    then show ?thesis by simp
  next
    case False
    with b have "- bitlen m + 1 < 0"
      by simp
    moreover have "nat (- (- bitlen m + 1)) = nat (bitlen m - 1)"
      by simp
    ultimately show ?thesis
      by (simp add: power_int_def field_simps del: nat_diff_distrib)
  qed
  ultimately show ?thesis
    using False by (simp add: ilog2_def m_def)
qed

lemma ilog2_unique:
  assumes "0 < a" and "2 powi l \<le> a" and "a < 2 powi (l + 1)"
  shows "ilog2 a = l"
proof (rule antisym)
  have "(2::rat) powi (ilog2 a) < 2 powi (l + 1)"
    using ilog2_lower [OF assms(1)] assms(3) by simp
  then have "ilog2 a < l + 1"
    by (metis not_less power_int_increasing one_le_numeral)
  then show "ilog2 a \<le> l"
    by simp
  have "(2::rat) powi l < 2 powi (ilog2 a + 1)"
    using ilog2_upper [OF assms(1)] assms(2) by simp
  then have "l < ilog2 a + 1"
    by (metis not_less power_int_increasing one_le_numeral)
  then show "l \<le> ilog2 a"
    by simp
qed

lemma round_even_cert:
  assumes "\<bar>m - of_int k\<bar> < 1 / 2 \<or> (\<bar>m - of_int k\<bar> = 1 / 2 \<and> even k)"
  shows "round_even m = k"
proof -
  consider (lo) "of_int k \<le> m" "m < of_int k + 1 / 2"
    | (hi) "of_int k - 1 / 2 < m" "m < of_int k"
    | (tie_up) "m = of_int k + 1 / 2" "even k"
    | (tie_down) "m = of_int k - 1 / 2" "even k"
    using assms by (auto simp: abs_if split: if_splits)
  then show ?thesis
  proof cases
    case lo
    then have "\<lfloor>m\<rfloor> = k"
      by (intro floor_unique) simp_all
    then show ?thesis
      using lo by (simp add: round_even_def Let_def)
  next
    case hi
    then have "\<lfloor>m\<rfloor> = k - 1"
      by (intro floor_unique) simp_all
    then show ?thesis
      using hi by (simp add: round_even_def Let_def algebra_simps)
  next
    case tie_up
    then have "\<lfloor>m\<rfloor> = k"
      by (intro floor_unique) simp_all
    then show ?thesis
      using tie_up by (simp add: round_even_def Let_def)
  next
    case tie_down
    then have "\<lfloor>m\<rfloor> = k - 1"
      by (intro floor_unique) simp_all
    then show ?thesis
      using tie_down by (simp add: round_even_def Let_def)
  qed
qed

lemma round_mag_cert:
  assumes "0 < a" and "2 powi l \<le> a" and "a < 2 powi (l + 1)"
    and "e = max (l - 52) (- 1074)"
    and "\<bar>a / 2 powi e - of_int k\<bar> < 1 / 2 \<or> (\<bar>a / 2 powi e - of_int k\<bar> = 1 / 2 \<and> even k)"
  shows "round_mag a = of_int k * 2 powi e"
  using ilog2_unique [OF assms(1-3)] round_even_cert [OF assms(5)] assms(4)
  by (simp add: round_mag_def)

lemma round_cert_pos:
  assumes "0 < x" and "2 powi l \<le> x" and "x < 2 powi (l + 1)"
    and "e = max (l - 52) (- 1074)"
    and "\<bar>x / 2 powi e - of_int k\<bar> < 1 / 2 \<or> (\<bar>x / 2 powi e - of_int k\<bar> = 1 / 2 \<and> even k)"
    and "0 < k" and "y = of_int k * 2 powi e" and "y < 2 powi 1024"
  shows "round_to_double x = Fin y"
proof -
  have r: "round_mag x = y"
    using round_mag_cert [OF assms(1-5)] assms(7) by simp
  have "0 < y"
    using assms(6,7) by simp
  then show ?thesis
    using assms(1,8) r by (simp add: round_to_double_def)
qed



lemma pow2_add: "(2::rat) powi (a + b) = 2 powi a * 2 powi b"
  by (rule power_int_add) simp


lemma round_even_nonneg:
  assumes "0 \<le> m"
  shows "0 \<le> round_even m"
proof -
  have "0 \<le> \<lfloor>m\<rfloor>"
    using assms by simp
  then show ?thesis
    by (simp add: round_even_def Let_def)
qed

lemma round_even_ge_floor: "\<lfloor>m\<rfloor> \<le> round_even m"
  by (simp add: round_even_def Let_def)

lemma round_even_le_floor: "round_even m \<le> \<lfloor>m\<rfloor> + 1"
  by (simp add: round_even_def Let_def)

lemma round_mag_nonneg:
  assumes "0 < a"
  shows "0 \<le> round_mag a"
proof -
  have "0 \<le> a / 2 powi (max (ilog2 a - 52) (- 1074))"
    using assms by simp
  then have "0 \<le> round_even (a / 2 powi (max (ilog2 a - 52) (- 1074)))"
    by (rule round_even_nonneg)
  then show ?thesis
    by (simp add: round_mag_def Let_def)
qed

text \<open>Rounding keeps the sign.\<close>

lemma round_to_double_pos:
  assumes "0 < x"
  shows "round_to_double x = PInf \<or> (\<exists>r\<ge>0. round_to_double x = Fin r)"
  using assms round_mag_nonneg [of x] by (auto simp: round_to_double_def Let_def)

lemma round_to_double_neg:
  assumes "x < 0"
  shows "round_to_double x = NInf \<or> round_to_double x = MZero \<or>
    (\<exists>r<0. round_to_double x = Fin r)"
proof -
  have "0 \<le> round_mag \<bar>x\<bar>"
    using assms by (intro round_mag_nonneg) simp
  then show ?thesis
    using assms by (auto simp: round_to_double_def Let_def)
qed

text \<open>A normal number is rounded within its binade.\<close>

lemma round_mag_bounds:
  assumes "0 < a" and "- 1022 \<le> ilog2 a"
  shows "2 powi (ilog2 a) \<le> round_mag a" and "round_mag a \<le> 2 powi (ilog2 a + 1)"
proof -
  define l where "l = ilog2 a"
  define e where "e = l - 52"
  define m where "m = a / 2 powi e"
  have e: "max (ilog2 a - 52) (- 1074) = e"
    using assms(2) by (simp add: e_def l_def)
  have p: "(0::rat) < 2 powi e"
    by simp
  have "2 powi l \<le> a"
    unfolding l_def by (rule ilog2_lower [OF assms(1)])
  then have "2 powi l / 2 powi e \<le> m"
    using p by (simp add: m_def divide_right_mono)
  moreover have "(2::rat) powi l / 2 powi e = 2 powi 52"
    by (simp add: e_def flip: power_int_diff)
  ultimately have m_lo: "2 ^ 52 \<le> m"
    by simp
  have "a < 2 powi (l + 1)"
    unfolding l_def by (rule ilog2_upper [OF assms(1)])
  then have "m < 2 powi (l + 1) / 2 powi e"
    using p by (simp add: m_def divide_strict_right_mono)
  moreover have "(2::rat) powi (l + 1) / 2 powi e = 2 powi 53"
    by (simp add: e_def flip: power_int_diff)
  ultimately have m_hi: "m < 2 ^ 53"
    by simp
  have "rat_of_int (2 ^ 52) \<le> m"
    using m_lo by simp
  then have "2 ^ 52 \<le> \<lfloor>m\<rfloor>"
    by (simp only: le_floor_iff)
  then have k_lo: "2 ^ 52 \<le> round_even m"
    using round_even_ge_floor [of m] by linarith
  have "m < rat_of_int (2 ^ 53)"
    using m_hi by simp
  then have "\<lfloor>m\<rfloor> < 2 ^ 53"
    by (simp only: floor_less_iff)
  then have k_hi: "round_even m \<le> 2 ^ 53"
    using round_even_le_floor [of m] by linarith
  have r: "round_mag a = of_int (round_even m) * 2 powi e"
    by (simp add: round_mag_def e m_def)
  have "l = 52 + e"
    by (simp add: e_def)
  then have "(2::rat) powi l = 2 powi (52 + e)"
    by (rule arg_cong)
  also have "\<dots> = 2 powi 52 * 2 powi e"
    by (rule pow2_add)
  also have "\<dots> \<le> of_int (round_even m) * 2 powi e"
  proof (rule mult_right_mono)
    have "rat_of_int (2 ^ 52) \<le> rat_of_int (round_even m)"
      using k_lo by (simp only: of_int_le_iff)
    then show "(2::rat) powi 52 \<le> rat_of_int (round_even m)"
      by simp
  qed simp
  finally show "2 powi (ilog2 a) \<le> round_mag a"
    by (simp add: r l_def)
  have "of_int (round_even m) * 2 powi e \<le> (2::rat) powi 53 * 2 powi e"
  proof (rule mult_right_mono)
    have "rat_of_int (round_even m) \<le> rat_of_int (2 ^ 53)"
      using k_hi by (simp only: of_int_le_iff)
    then show "rat_of_int (round_even m) \<le> 2 powi 53"
      by simp
  qed simp
  also have "(2::rat) powi 53 * 2 powi e = 2 powi (53 + e)"
    by (rule pow2_add [symmetric])
  also have "53 + e = l + 1"
    by (simp add: e_def)
  finally show "round_mag a \<le> 2 powi (ilog2 a + 1)"
    by (simp add: r l_def)
qed





text \<open>The conversion of a positive \<open>long\<close> is a positive finite double.\<close>

lemma round_to_double_int_pos:
  assumes "0 < n" and "n < 2 ^ 63"
  shows "\<exists>y>0. round_to_double (of_int n) = Fin y"
proof -
  define x where "x = rat_of_int n"
  have x: "0 < x" and x1: "1 \<le> x"
    using assms(1) by (simp_all add: x_def)
  have "0 < bitlen \<lfloor>x\<rfloor>"
    using assms(1) bitlen_eq_zero_iff [of n] bitlen_nonneg [of n] by (simp add: x_def)
  then have l0: "0 \<le> ilog2 x"
    using x1 by (simp add: ilog2_def)
  then have n1022: "- 1022 \<le> ilog2 x"
    by simp
  have "rat_of_int n < rat_of_int (2 ^ 63)"
    using assms(2) by (simp only: of_int_less_iff)
  then have "x < 2 powi 63"
    by (simp add: x_def)
  then have "(2::rat) powi (ilog2 x) < 2 powi 63"
    using ilog2_lower [OF x] by simp
  then have "ilog2 x < 63"
    by (metis not_less power_int_increasing one_le_numeral)
  then have "ilog2 x + 1 \<le> 64"
    by simp
  then have "(2::rat) powi (ilog2 x + 1) \<le> 2 powi 64"
    by (rule power_int_increasing) simp
  also have "(2::rat) powi 64 < 2 powi 1024"
    by (rule power_int_strict_increasing) simp_all
  finally have hi: "round_mag x < 2 powi 1024"
    using round_mag_bounds(2) [OF x n1022] by simp
  have "(0::rat) < 2 powi (ilog2 x)"
    by simp
  then have lo: "0 < round_mag x"
    using round_mag_bounds(1) [OF x n1022] by (rule less_le_trans)
  have "round_to_double x = Fin (round_mag x)"
    using x lo hi unfolding round_to_double_def Let_def
    by (simp only: abs_of_pos not_le [symmetric] if_False) simp
  then show ?thesis
    using lo unfolding x_def by blast
qed

lemma long_to_double_pos:
  assumes "0 <s w"
  obtains n where "long_to_double w = Fin n" and "0 < n"
proof -
  have "0 < sint w"
    using assms by (simp add: word_sless_alt)
  moreover have "sint w < 2 ^ 63"
    using sint_lt [of w] by simp
  ultimately obtain y where "0 < y" "round_to_double (of_int (sint w)) = Fin y"
    using round_to_double_int_pos by blast
  then show ?thesis
    using that by (simp add: long_to_double_def)
qed

text \<open>Operations on finite doubles.\<close>

lemma Fin_add: "a + b \<noteq> 0 \<Longrightarrow> Fin a + Fin b = round_to_double (a + b)"
  by (simp add: plus_double_def)


lemma Fin_mul: "a * b \<noteq> 0 \<Longrightarrow> Fin a * Fin b = round_to_double (a * b)"
  by (simp add: times_double_def is_inf_def)


lemma Fin_less: "Fin a < Fin b \<longleftrightarrow> a < b"
  by (simp add: less_double_def)

lemma zero_add_Fin: "a \<noteq> 0 \<Longrightarrow> 0 + Fin a = round_to_double a"
  by (simp add: plus_double_def zero_double_def)

subsection \<open>Signs and special values of the operations\<close>


lemma square_cases:
  fixes e :: double
  shows "e * e = NaN \<or> e * e = PInf \<or> (\<exists>t. 0 \<le> t \<and> e * e = Fin t)"
proof (cases e)
  case (Fin x)
  show ?thesis
  proof (cases "x = 0")
    case True
    then show ?thesis
      by (simp add: Fin times_double_def is_inf_def)
  next
    case False
    then have "0 < x * x"
      by (auto simp add: zero_less_mult_iff)
    then have "round_to_double (x * x) = PInf \<or> (\<exists>t. 0 \<le> t \<and> round_to_double (x * x) = Fin t)"
      by (rule round_to_double_pos)
    then show ?thesis
      using False by (auto simp add: Fin times_double_def is_inf_def)
  qed
qed (simp_all add: times_double_def is_inf_def is_zero_def)

lemma square_NaN: "(e::double) * e = NaN \<longleftrightarrow> e = NaN"
proof (cases e)
  case (Fin x)
  show ?thesis
  proof (cases "x = 0")
    case True
    then show ?thesis
      by (simp add: Fin times_double_def is_inf_def)
  next
    case False
    then have "0 < x * x"
      by (auto simp add: zero_less_mult_iff)
    then have "round_to_double (x * x) = PInf \<or> (\<exists>t. 0 \<le> t \<and> round_to_double (x * x) = Fin t)"
      by (rule round_to_double_pos)
    then show ?thesis
      using False by (auto simp add: Fin times_double_def is_inf_def)
  qed
qed (simp_all add: times_double_def is_inf_def is_zero_def)


lemma divide_by_zero_cases:
  fixes v :: double
  shows "v / Fin 0 = NaN \<or> v / Fin 0 = PInf \<or> v / Fin 0 = NInf"
  by (cases v) (simp_all add: divide_double_def is_inf_def is_zero_def)

lemma zero_divide_pos:
  assumes "is_zero x" and "0 < y"
  shows "is_zero (x / Fin y)"
  using assms by (auto simp add: divide_double_def is_inf_def is_zero_def)

lemma zero_square: "is_zero e \<Longrightarrow> e * e = Fin 0"
  by (auto simp add: times_double_def is_inf_def is_zero_def)


subsection \<open>The two tests of \<open>is_converged\<close>\<close>

lemma is_converged_test:
  "is_converged p r \<longleftrightarrow>
     is_converged_varEst r / (is_converged_EX r * is_converged_EX r) < rtol p * rtol p \<or>
     long_to_double (maxtrials p) < long_to_double (ntrials r)"
  by (simp add: is_converged_def is_converged_EX_def is_converged_varEst_def Let_def)


subsection \<open>The convergence test: claim C1\<close>




subsection \<open>Merging batches: claims C2 and C3\<close>

lemma foldl_mc_result_update:
  "foldl mc_result_update r bs =
     r\<lparr>sum_X := foldl (+) (sum_X r) (map sum_X bs),
       sum_X2 := foldl (+) (sum_X2 r) (map sum_X2 bs),
       ntrials := ntrials r + sum_list (map ntrials bs)\<rparr>"
proof (induction bs arbitrary: r)
  case Nil
  show ?case by simp
next
  case (Cons b bs)
  have "foldl mc_result_update r (b # bs) = foldl mc_result_update (mc_result_update r b) bs"
    by simp
  also have "\<dots> = (mc_result_update r b)
       \<lparr>sum_X := foldl (+) (sum_X (mc_result_update r b)) (map sum_X bs),
        sum_X2 := foldl (+) (sum_X2 (mc_result_update r b)) (map sum_X2 bs),
        ntrials := ntrials (mc_result_update r b) + sum_list (map ntrials bs)\<rparr>"
    by (rule Cons.IH)
  also have "\<dots> = r\<lparr>sum_X := foldl (+) (sum_X r) (map sum_X (b # bs)),
       sum_X2 := foldl (+) (sum_X2 r) (map sum_X2 (b # bs)),
       ntrials := ntrials r + sum_list (map ntrials (b # bs))\<rparr>"
    by (simp add: mc_result_update_def add.assoc)
  finally show ?case .
qed


text \<open>
  Claim C2 says that after the merges each field of the result is the sum of that field
  over the batches merged. For the two sums of doubles this holds of the rounded
  additions only, not of the sum of the values: after the merge of three batches of one
  trial each, with the samples \<open>2\<^sup>5\<^sup>3\<close>, 1 and 1, the field \<open>sum_X\<close> is \<open>2\<^sup>5\<^sup>3\<close> (each addition of
  1 is rounded away), and the sum of the three values is \<open>2\<^sup>5\<^sup>3 + 2\<close>.
\<close>

theorem merged_sum_rounded:
  "sum_X (foldl mc_result_update (mc_result_init \<lparr>sum_X = NaN, sum_X2 = NaN, ntrials = 7\<rparr>)
     [\<lparr>sum_X = Fin 9007199254740992, sum_X2 = Fin (9007199254740992 * 9007199254740992),
        ntrials = 1\<rparr>,
      \<lparr>sum_X = Fin 1, sum_X2 = Fin 1, ntrials = 1\<rparr>,
      \<lparr>sum_X = Fin 1, sum_X2 = Fin 1, ntrials = 1\<rparr>]) = Fin 9007199254740992 \<and>
   Fin 9007199254740992 \<noteq> Fin (9007199254740992 + 1 + 1)"
proof -
  have e1: "round_to_double (9007199254740992) = Fin 9007199254740992"
    by (rule round_cert_pos [where l = "53" and e = "1" and k = 4503599627370496]) (simp_all add: power_int_def power_divide)
  have e2: "Fin 0 + Fin 9007199254740992 = Fin 9007199254740992"
    using e1 by (simp add: Fin_add)
  have e3: "round_to_double (9007199254740993) = Fin 9007199254740992"
    by (rule round_cert_pos [where l = "53" and e = "1" and k = 4503599627370496]) (simp_all add: power_int_def power_divide)
  have e4: "Fin 9007199254740992 + Fin 1 = Fin 9007199254740992"
    using e3 by (simp add: Fin_add)
  show ?thesis
    by (simp add: mc_result_init_def mc_result_update_def zero_double_def e2 e4)
qed

text \<open>
  Claim C2, amended. Starting from a result initialised by \<open>mc_result_init\<close>, after the
  merges of the batches \<open>bs\<close> by \<open>mc_result_update\<close>, one after the other, the field
  \<open>ntrials\<close> is the sum of the counts of the batches (a sum of 64-bit integers), and each of
  \<open>sum_X\<close> and \<open>sum_X2\<close> is the running sum of that field over the batches: it starts at 0
  and adds the batches' values in the order of the merges, each addition rounded to a
  double.
\<close>

theorem merged_fields_are_running_sums:
  "sum_X (foldl mc_result_update (mc_result_init r0) bs) = foldl (+) 0 (map sum_X bs) \<and>
   sum_X2 (foldl mc_result_update (mc_result_init r0) bs) = foldl (+) 0 (map sum_X2 bs) \<and>
   ntrials (foldl mc_result_update (mc_result_init r0) bs) = sum_list (map ntrials bs)"
  by (simp add: foldl_mc_result_update mc_result_init_def)




subsection \<open>A batch of trials: claim C4\<close>

lemma sint_succ:
  fixes t n :: c_int
  assumes "t <s n"
  shows "sint (t + 1) = sint t + 1"
proof -
  have "sint n < 2 ^ 31"
    using sint_lt [of n] by simp
  moreover have "- (2 ^ 31) \<le> sint t"
    using sint_ge [of t] by simp
  ultimately show ?thesis
    using assms by (simp add: word_sless_alt sint_word_ariths signed_take_bit_int_eq_self)
qed

lemma run_trial_eq: "run_trial genrand mt = genrand mt"
  by (simp add: run_trial_def)

lemma run_trials_loop_eq:
  assumes "k = nat (sint nb - sint t)"
  shows "run_trials_loop genrand nb t mt a b =
     (state_after genrand k mt,
      foldl (+) a (drawn_values genrand k mt),
      foldl (\<lambda>s X. s + X * X) b (drawn_values genrand k mt))"
  using assms
proof (induction k arbitrary: t mt a b)
  case 0
  then have "\<not> t <s nb" by (simp add: word_sless_alt)
  then show ?case
    by (subst run_trials_loop.simps) simp
next
  case (Suc k)
  then have lt: "t <s nb" by (simp add: word_sless_alt)
  have "k = nat (sint nb - sint (t + 1))"
    using Suc.prems sint_succ [OF lt] by simp
  note IH = Suc.IH [OF this]
  show ?case
    by (subst run_trials_loop.simps)
      (simp add: lt IH run_trial_eq Let_def split: prod.splits)
qed

lemma length_drawn_values: "length (drawn_values genrand n mt) = n"
  by (induction n arbitrary: mt) simp_all

lemma sint_int_to_long: "sint (int_to_long n) = sint n"
  by (simp add: int_to_long_def sint_up_scast is_up)

lemma run_trials_eq:
  "run_trials genrand mt nb result =
     (state_after genrand (nat (sint nb)) mt,
      result\<lparr>sum_X := foldl (+) 0 (drawn_values genrand (nat (sint nb)) mt),
             sum_X2 := foldl (\<lambda>s X. s + X * X) 0 (drawn_values genrand (nat (sint nb)) mt),
             ntrials := int_to_long nb\<rparr>)"
proof -
  have "nat (sint nb) = nat (sint nb - sint (0::c_int))"
    by simp
  note loop = run_trials_loop_eq [OF this]
  show ?thesis
    by (simp add: run_trials_def loop)
qed

text \<open>The generator \<open>Pair x\<close> returns the value \<open>x\<close> at every call and keeps its state.\<close>

lemma drawn_values_Pair: "drawn_values (Pair x) n mt = replicate n x"
  by (induction n arbitrary: mt) simp_all

text \<open>
  Claim C4 says that \<open>run_trials\<close> sets \<open>sum_X\<close> to the sum of the values drawn and \<open>sum_X2\<close> to
  the sum of their squares. The loop adds in doubles, and every addition and every
  product rounds: with a generator that returns the double nearest to \<open>1/10\<close> at every call,
  a batch of three trials has \<open>sum_X = 0x1.3333333333334p-2\<close>, which is not the sum of the
  three values drawn (three times that double is not a double, and the nearest double
  is \<open>0x1.3333333333333p-2\<close>).
\<close>

theorem run_trials_sum_rounded:
  "round_to_double (1 / 10) = Fin (3602879701896397 / 36028797018963968) \<and>
   sum_X (snd (run_trials (Pair (Fin (3602879701896397 / 36028797018963968)))
       () 3 \<lparr>sum_X = NaN, sum_X2 = NaN, ntrials = 7\<rparr>)) =
     Fin (1351079888211149 / 4503599627370496) \<and>
   Fin (1351079888211149 / 4503599627370496) \<noteq>
     Fin (3602879701896397 / 36028797018963968 + 3602879701896397 / 36028797018963968 +
          3602879701896397 / 36028797018963968)"
proof -
  have e1: "round_to_double (3602879701896397 / 36028797018963968) = Fin (3602879701896397 / 36028797018963968)"
    by (rule round_cert_pos [where l = "- 4" and e = "- 56" and k = 7205759403792794]) (simp_all add: power_int_def power_divide)
  have e2: "Fin 0 + Fin (3602879701896397 / 36028797018963968) = Fin (3602879701896397 / 36028797018963968)"
    using e1 by (simp add: Fin_add)
  have e3: "round_to_double (12980742146337070512478121581609 / 1298074214633706907132624082305024) = Fin (1441151880758559 / 144115188075855872)"
    by (rule round_cert_pos [where l = "- 7" and e = "- 59" and k = 5764607523034236]) (simp_all add: power_int_def power_divide)
  have e4: "Fin (3602879701896397 / 36028797018963968) * Fin (3602879701896397 / 36028797018963968) = Fin (1441151880758559 / 144115188075855872)"
    using e3 by (simp add: Fin_mul)
  have e5: "round_to_double (1441151880758559 / 144115188075855872) = Fin (1441151880758559 / 144115188075855872)"
    by (rule round_cert_pos [where l = "- 7" and e = "- 59" and k = 5764607523034236]) (simp_all add: power_int_def power_divide)
  have e6: "Fin 0 + Fin (1441151880758559 / 144115188075855872) = Fin (1441151880758559 / 144115188075855872)"
    using e5 by (simp add: Fin_add)
  have e7: "round_to_double (3602879701896397 / 18014398509481984) = Fin (3602879701896397 / 18014398509481984)"
    by (rule round_cert_pos [where l = "- 3" and e = "- 55" and k = 7205759403792794]) (simp_all add: power_int_def power_divide)
  have e8: "Fin (3602879701896397 / 36028797018963968) + Fin (3602879701896397 / 36028797018963968) = Fin (3602879701896397 / 18014398509481984)"
    using e7 by (simp add: Fin_add)
  have e9: "round_to_double (1441151880758559 / 72057594037927936) = Fin (1441151880758559 / 72057594037927936)"
    by (rule round_cert_pos [where l = "- 6" and e = "- 58" and k = 5764607523034236]) (simp_all add: power_int_def power_divide)
  have e10: "Fin (1441151880758559 / 144115188075855872) + Fin (1441151880758559 / 144115188075855872) = Fin (1441151880758559 / 72057594037927936)"
    using e9 by (simp add: Fin_add)
  have e11: "round_to_double (10808639105689191 / 36028797018963968) = Fin (1351079888211149 / 4503599627370496)"
    by (rule round_cert_pos [where l = "- 2" and e = "- 54" and k = 5404319552844596]) (simp_all add: power_int_def power_divide)
  have e12: "Fin (3602879701896397 / 18014398509481984) + Fin (3602879701896397 / 36028797018963968) = Fin (1351079888211149 / 4503599627370496)"
    using e11 by (simp add: Fin_add)
  have e13: "round_to_double (4323455642275677 / 144115188075855872) = Fin (4323455642275677 / 144115188075855872)"
    by (rule round_cert_pos [where l = "- 6" and e = "- 58" and k = 8646911284551354]) (simp_all add: power_int_def power_divide)
  have e14: "Fin (1441151880758559 / 72057594037927936) + Fin (1441151880758559 / 144115188075855872) = Fin (4323455642275677 / 144115188075855872)"
    using e13 by (simp add: Fin_add)
  have e15: "round_to_double (1 / 10) = Fin (3602879701896397 / 36028797018963968)"
    by (rule round_cert_pos [where l = "- 4" and e = "- 56" and k = 7205759403792794]) (simp_all add: power_int_def power_divide)
  show ?thesis
    by (simp add: run_trials_eq drawn_values_Pair numeral_3_eq_3 zero_double_def
        e2 e4 e6 e8 e10 e12 e14 e15)
qed

text \<open>
  Claim C4, amended. For every generator state \<open>mt\<close> and every batch size \<open>nb \<ge> 0\<close>,
  \<open>run_trials\<close> draws one value per trial: it leaves the generator in the state after
  exactly \<open>nb\<close> draws, and it sets \<open>ntrials\<close> to \<open>nb\<close>, \<open>sum_X\<close> to the running sum of the \<open>nb\<close>
  values drawn and \<open>sum_X2\<close> to the running sum of their squares: both start at 0 and add
  the values, or their squares, in the order of the draws, every addition and every
  square rounded to a double.
\<close>

theorem run_trials_running_sums:
  assumes "0 \<le>s nb"
  shows "run_trials genrand mt nb result =
     (let n = nat (sint nb); xs = drawn_values genrand n mt
      in (state_after genrand n mt,
          result\<lparr>sum_X := foldl (+) 0 xs,
                 sum_X2 := foldl (\<lambda>s X. s + X * X) 0 xs,
                 ntrials := int_to_long nb\<rparr>)) \<and>
     int (length (drawn_values genrand (nat (sint nb)) mt)) = sint nb \<and>
     sint (int_to_long nb) = sint nb"
  using assms
  by (simp add: run_trials_eq Let_def sint_int_to_long length_drawn_values word_sle_eq)

theorem run_trials_running_sums_witness:
  "(0::c_int) \<le>s 2 \<and>
   run_trials (\<lambda>s::nat. (Fin (of_nat s / 4), s + 1)) 1 2
       \<lparr>sum_X = NaN, sum_X2 = PInf, ntrials = 9\<rparr> =
     (3, \<lparr>sum_X = Fin (3 / 4), sum_X2 = Fin (5 / 16), ntrials = 2\<rparr>)"
proof -
  have h: "(0::c_int) \<le>s 2"
    by (simp add: word_sle_eq)
  have e1: "round_to_double (1 / 4) = Fin (1 / 4)"
    by (rule round_cert_pos [where l = "- 2" and e = "- 54" and k = 4503599627370496]) (simp_all add: power_int_def power_divide)
  have e2: "Fin 0 + Fin (1 / 4) = Fin (1 / 4)"
    using e1 by (simp add: Fin_add)
  have e3: "round_to_double (1 / 16) = Fin (1 / 16)"
    by (rule round_cert_pos [where l = "- 4" and e = "- 56" and k = 4503599627370496]) (simp_all add: power_int_def power_divide)
  have e4: "Fin (1 / 4) * Fin (1 / 4) = Fin (1 / 16)"
    using e3 by (simp add: Fin_mul)
  have e5: "Fin 0 + Fin (1 / 16) = Fin (1 / 16)"
    using e3 by (simp add: Fin_add)
  have e6: "round_to_double (3 / 4) = Fin (3 / 4)"
    by (rule round_cert_pos [where l = "- 1" and e = "- 53" and k = 6755399441055744]) (simp_all add: power_int_def power_divide)
  have e7: "Fin (1 / 4) + Fin (1 / 2) = Fin (3 / 4)"
    using e6 by (simp add: Fin_add)
  have e8: "Fin (1 / 2) * Fin (1 / 2) = Fin (1 / 4)"
    using e1 by (simp add: Fin_mul)
  have e9: "round_to_double (5 / 16) = Fin (5 / 16)"
    by (rule round_cert_pos [where l = "- 2" and e = "- 54" and k = 5629499534213120]) (simp_all add: power_int_def power_divide)
  have e10: "Fin (1 / 16) + Fin (1 / 4) = Fin (5 / 16)"
    using e9 by (simp add: Fin_add)
  show ?thesis
    using h run_trials_running_sums [OF h, of "\<lambda>s::nat. (Fin (of_nat s / 4), s + 1)" 1
        "\<lparr>sum_X = NaN, sum_X2 = PInf, ntrials = 9\<rparr>"]
    by (simp add: numeral_2_eq_2 Let_def int_to_long_def zero_double_def
        e2 e4 e5 e7 e8 e10)
qed

subsection \<open>Tolerance zero: claim C5\<close>





subsection \<open>A mean of zero: claim C8\<close>

lemma zero_mean_quotient:
  assumes "0 <s ntrials r" and "is_zero (sum_X r)"
  shows "is_converged_EX r * is_converged_EX r = Fin 0"
proof -
  obtain n where n: "long_to_double (ntrials r) = Fin n" "0 < n"
    using assms(1) by (rule long_to_double_pos)
  have "is_zero (sum_X r / Fin n)"
    using assms(2) n(2) by (rule zero_divide_pos)
  then have "is_zero (is_converged_EX r)"
    by (simp add: is_converged_EX_def n(1))
  then show ?thesis
    by (rule zero_square)
qed

lemma less_square_cases:
  fixes q t :: double
  assumes "q = NaN \<or> q = PInf \<or> q = NInf"
  shows "q < t * t \<longleftrightarrow> q = NInf \<and> t \<noteq> NaN"
proof -
  have "t * t \<noteq> NInf"
    using square_cases [of t] by auto
  moreover have "t * t = NaN \<longleftrightarrow> t = NaN"
    by (rule square_NaN)
  ultimately show ?thesis
    using assms by (auto simp add: less_double_def)
qed

text \<open>
  Claim C8 says that for a result with \<open>ntrials > 0\<close> and \<open>sum_X = 0\<close> the function
  \<open>is_converged\<close> does not divide by zero in \<open>varEst/(EX*EX)\<close> but takes a fallback. The
  code has no such branch. At the result with \<open>sum_X = 0\<close>, \<open>sum_X2 = 1\<close> and \<open>ntrials = 1\<close>
  the divisor \<open>EX*EX\<close> is 0, \<open>varEst\<close> is 1, and the quotient that the test compares is the
  infinity that the division by zero returns; with \<open>sum_X2 = 0\<close> it is NaN.
\<close>

theorem zero_mean_fallback_counterexample:
  "0 <s ntrials \<lparr>sum_X = 0, sum_X2 = Fin 1, ntrials = 1\<rparr> \<and>
   sum_X \<lparr>sum_X = 0, sum_X2 = Fin 1, ntrials = 1\<rparr> = 0 \<and>
   is_converged_EX \<lparr>sum_X = 0, sum_X2 = Fin 1, ntrials = 1\<rparr> *
     is_converged_EX \<lparr>sum_X = 0, sum_X2 = Fin 1, ntrials = 1\<rparr> = Fin 0 \<and>
   is_converged_varEst \<lparr>sum_X = 0, sum_X2 = Fin 1, ntrials = 1\<rparr> = Fin 1 \<and>
   is_converged_varEst \<lparr>sum_X = 0, sum_X2 = Fin 1, ntrials = 1\<rparr> /
     (is_converged_EX \<lparr>sum_X = 0, sum_X2 = Fin 1, ntrials = 1\<rparr> *
      is_converged_EX \<lparr>sum_X = 0, sum_X2 = Fin 1, ntrials = 1\<rparr>) = PInf \<and>
   is_converged_varEst \<lparr>sum_X = 0, sum_X2 = 0, ntrials = 1\<rparr> /
     (is_converged_EX \<lparr>sum_X = 0, sum_X2 = 0, ntrials = 1\<rparr> *
      is_converged_EX \<lparr>sum_X = 0, sum_X2 = 0, ntrials = 1\<rparr>) = NaN"
proof -
  have e1: "round_to_double (1) = Fin 1"
    by (rule round_cert_pos [where l = "0" and e = "- 52" and k = 4503599627370496]) (simp_all add: power_int_def power_divide)
  have e2: "long_to_double 1 = Fin 1"
    using e1 by (simp add: long_to_double_def)
  have e3: "round_to_double (10000000) = Fin 10000000"
    by (rule round_cert_pos [where l = "23" and e = "- 29" and k = 5368709120000000]) (simp_all add: power_int_def power_divide)
  have e4: "long_to_double 10000000 = Fin 10000000"
    using e3 by (simp add: long_to_double_def)
  show ?thesis
    by (simp add: is_converged_EX_def is_converged_varEst_def Let_def zero_double_def
        minus_double_def plus_double_def times_double_def divide_double_def is_zero_def
        is_inf_def word_sless_alt e2 e4 e1 e3)
qed

text \<open>
  Claim C8, amended. For every result with \<open>ntrials > 0\<close> and \<open>sum_X = 0\<close> (either zero),
  \<open>is_converged\<close> has no fallback: the divisor \<open>EX*EX\<close> is 0 and the division
  \<open>varEst/(EX*EX)\<close> is done as it is written, so the quotient is NaN or an infinity, never a
  finite number. The relative-error test is then true only for the quotient \<open>-\<infinity>\<close> and a
  tolerance that is not NaN; otherwise \<open>is_converged\<close> is true only by the budget test, on
  the two counts as doubles.
\<close>

theorem zero_mean_divides_by_zero:
  assumes "0 <s ntrials r" and "is_zero (sum_X r)"
  shows "is_converged_EX r * is_converged_EX r = Fin 0 \<and>
     (is_converged_varEst r / (is_converged_EX r * is_converged_EX r) = NaN \<or>
      is_converged_varEst r / (is_converged_EX r * is_converged_EX r) = PInf \<or>
      is_converged_varEst r / (is_converged_EX r * is_converged_EX r) = NInf) \<and>
     (is_converged p r \<longleftrightarrow>
        (is_converged_varEst r / (is_converged_EX r * is_converged_EX r) = NInf \<and>
         rtol p \<noteq> NaN) \<or>
        long_to_double (maxtrials p) < long_to_double (ntrials r))"
proof (intro conjI)
  show z: "is_converged_EX r * is_converged_EX r = Fin 0"
    using assms by (rule zero_mean_quotient)
  show q: "is_converged_varEst r / (is_converged_EX r * is_converged_EX r) = NaN \<or>
      is_converged_varEst r / (is_converged_EX r * is_converged_EX r) = PInf \<or>
      is_converged_varEst r / (is_converged_EX r * is_converged_EX r) = NInf"
    unfolding z by (rule divide_by_zero_cases)
  show "is_converged p r \<longleftrightarrow>
        (is_converged_varEst r / (is_converged_EX r * is_converged_EX r) = NInf \<and>
         rtol p \<noteq> NaN) \<or>
        long_to_double (maxtrials p) < long_to_double (ntrials r)"
    by (simp only: is_converged_test less_square_cases [OF q])
qed

theorem zero_mean_divides_by_zero_witness:
  "0 <s ntrials \<lparr>sum_X = 0, sum_X2 = Fin 1, ntrials = 1\<rparr> \<and>
   is_zero (sum_X \<lparr>sum_X = 0, sum_X2 = Fin 1, ntrials = 1\<rparr>) \<and>
   \<not> is_converged
     \<lparr>verbose = 1, rtol = round_to_double (1 / 10000), maxtrials = 10000000, nbatch = 5000\<rparr>
     \<lparr>sum_X = 0, sum_X2 = Fin 1, ntrials = 1\<rparr>"
proof -
  let ?r = "\<lparr>sum_X = 0, sum_X2 = Fin 1, ntrials = 1\<rparr>"
  have h1: "0 <s ntrials ?r"
    by (simp add: word_sless_alt)
  have h2: "is_zero (sum_X ?r)"
    by (simp add: is_zero_def zero_double_def)
  have e1: "round_to_double (1) = Fin 1"
    by (rule round_cert_pos [where l = "0" and e = "- 52" and k = 4503599627370496]) (simp_all add: power_int_def power_divide)
  have e2: "long_to_double 1 = Fin 1"
    using e1 by (simp add: long_to_double_def)
  have e3: "round_to_double (10000000) = Fin 10000000"
    by (rule round_cert_pos [where l = "23" and e = "- 29" and k = 5368709120000000]) (simp_all add: power_int_def power_divide)
  have e4: "long_to_double 10000000 = Fin 10000000"
    using e3 by (simp add: long_to_double_def)
  have q: "is_converged_varEst ?r / (is_converged_EX ?r * is_converged_EX ?r) = PInf"
    by (simp add: is_converged_EX_def is_converged_varEst_def Let_def zero_double_def
        minus_double_def plus_double_def times_double_def divide_double_def is_zero_def
        is_inf_def e2 e4 e1 e3)
  have "\<not> is_converged
     \<lparr>verbose = 1, rtol = round_to_double (1 / 10000), maxtrials = 10000000, nbatch = 5000\<rparr> ?r"
    using zero_mean_divides_by_zero [OF h1 h2, where p =
      "\<lparr>verbose = 1, rtol = round_to_double (1 / 10000), maxtrials = 10000000, nbatch = 5000\<rparr>"]
    by (simp add: q Fin_less e2 e4 e1 e3)
  with h1 h2 show ?thesis
    by (intro conjI)
qed

subsection \<open>The frame of a merge: claim C9\<close>

lemma mc_result_update_store_eq:
  "mc_result_update_store s result batch =
     s(result := (s result)
        \<lparr>sum_X := sum_X (s result) + sum_X (s batch),
         sum_X2 := sum_X2 (s result) + sum_X2 (s batch),
         ntrials := ntrials (s result) + ntrials (s batch)\<rparr>)"
  by (cases "result = batch") (simp_all add: mc_result_update_store_def Let_def)

text \<open>
  Claim C9. For a result object and a batch object (two objects, at the addresses
  \<open>result \<noteq> batch\<close> of a store), \<open>mc_result_update\<close> leaves the batch as it was, and
  every other object of the store; of the result it changes the three fields \<open>sum_X\<close>,
  \<open>sum_X2\<close> and \<open>ntrials\<close> only, to the sums of the old values and the batch's.
\<close>

theorem mc_result_update_frame:
  assumes "result \<noteq> batch"
  shows "(let s' = mc_result_update_store s result batch
          in s' batch = s batch \<and>
             (\<forall>a. a \<noteq> result \<longrightarrow> s' a = s a) \<and>
             (s' result)\<lparr>sum_X := sum_X (s result), sum_X2 := sum_X2 (s result),
                         ntrials := ntrials (s result)\<rparr> = s result \<and>
             s' result = mc_result_update (s result) (s batch))"
  using assms by (simp add: mc_result_update_store_eq mc_result_update_def Let_def)

theorem mc_result_update_frame_witness:
  "(0::nat) \<noteq> 1 \<and>
   mc_result_update_store
     (\<lambda>a. if a = 0 then \<lparr>sum_X = Fin 1, sum_X2 = Fin 1, ntrials = 2\<rparr>
          else \<lparr>sum_X = Fin (1 / 2), sum_X2 = Fin (1 / 4), ntrials = 1\<rparr>) 0 1 1 =
     \<lparr>sum_X = Fin (1 / 2), sum_X2 = Fin (1 / 4), ntrials = 1\<rparr> \<and>
   mc_result_update_store
     (\<lambda>a. if a = 0 then \<lparr>sum_X = Fin 1, sum_X2 = Fin 1, ntrials = 2\<rparr>
          else \<lparr>sum_X = Fin (1 / 2), sum_X2 = Fin (1 / 4), ntrials = 1\<rparr>) 0 1 0 =
     \<lparr>sum_X = Fin (3 / 2), sum_X2 = Fin (5 / 4), ntrials = 3\<rparr>"
proof -
  have h: "(0::nat) \<noteq> 1"
    by simp
  have e1: "round_to_double (3 / 2) = Fin (3 / 2)"
    by (rule round_cert_pos [where l = "0" and e = "- 52" and k = 6755399441055744]) (simp_all add: power_int_def power_divide)
  have e2: "Fin 1 + Fin (1 / 2) = Fin (3 / 2)"
    using e1 by (simp add: Fin_add)
  have e3: "round_to_double (5 / 4) = Fin (5 / 4)"
    by (rule round_cert_pos [where l = "0" and e = "- 52" and k = 5629499534213120]) (simp_all add: power_int_def power_divide)
  have e4: "Fin 1 + Fin (1 / 4) = Fin (5 / 4)"
    using e3 by (simp add: Fin_add)
  show ?thesis
    using h mc_result_update_frame [OF h, where s =
      "\<lambda>a. if a = 0 then \<lparr>sum_X = Fin 1, sum_X2 = Fin 1, ntrials = 2\<rparr>
          else \<lparr>sum_X = Fin (1 / 2), sum_X2 = Fin (1 / 4), ntrials = 1\<rparr>"]
    by (simp add: Let_def mc_result_update_def e2 e4)
qed

text \<open>When both arguments are the same object, the call doubles its three fields.\<close>

lemma mc_result_update_aliased:
  "mc_result_update_store s a a a =
     (s a)\<lparr>sum_X := sum_X (s a) + sum_X (s a), sum_X2 := sum_X2 (s a) + sum_X2 (s a),
           ntrials := ntrials (s a) + ntrials (s a)\<rparr>"
  by (simp add: mc_result_update_store_eq)

subsection \<open>Command-line processing: claims C6, C7 and C10\<close>

lemma getopt_loop_append:
  "getopt_loop M (cs @ ds) n p =
     (case getopt_loop M cs n p of Inl e \<Rightarrow> Inl e | Inr (n', p') \<Rightarrow> getopt_loop M ds n' p')"
  by (induction M cs n p rule: getopt_loop.induct) (simp_all add: Let_def)

lemma getopt_loop_no_p:
  assumes "\<forall>c \<in> set cs. \<forall>n. c \<noteq> Opt_p n"
  shows "case getopt_loop M cs nthreads p of
           Inl e \<Rightarrow> e \<noteq> Nthreads_range
         | Inr (nthreads', p') \<Rightarrow> nthreads' = nthreads"
  using assms
  by (induction M cs nthreads p rule: getopt_loop.induct) (simp_all add: Let_def)

lemma zero_not_less_zero: "\<not> (0::double) < 0"
  by (simp add: less_double_def zero_double_def)

text \<open>
  Claim C6 says that every tolerance \<open>t \<le> 0\<close> given with \<open>-t\<close> is a fatal error. The code
  tests \<open>param->rtol < 0\<close>, under the message \<open>rtol must be positive\<close>: for the command line
  \<open>-t 0\<close> (three words with the program's name, so \<open>optind = argc = 3\<close>) \<open>process_args\<close>
  returns, with the tolerance 0 in the parameters.
\<close>

theorem tolerance_zero_accepted:
  "process_args M [Opt_t 0] 3 3 param = Inr (0, (mc_param_init param)\<lparr>rtol := 0\<rparr>)"
  by (simp add: process_args_def zero_not_less_zero word_sless_alt)

text \<open>A negative tolerance is refused.\<close>

lemma negative_tolerance_rejected:
  assumes "x < 0"
  shows "process_args M (cs @ Opt_t x # ds) optind argc param =
     (case getopt_loop M cs 0 (mc_param_init param) of
        Inl e \<Rightarrow> Inl e
      | Inr st \<Rightarrow> Inl Rtol_positive)"
  using assms
  by (simp add: process_args_def getopt_loop_append split: sum.splits prod.splits)

lemma negative_tolerance_rejected_witness:
  "Fin (- 1) < 0 \<and>
   process_args 32 [Opt_n 1000, Opt_t (Fin (- 1))] 5 5
     \<lparr>verbose = 0, rtol = NaN, maxtrials = 0, nbatch = 0\<rparr> = Inl Rtol_positive"
proof -
  have h: "Fin (- 1) < 0"
    by (simp add: zero_double_def less_double_def)
  show ?thesis
    using h negative_tolerance_rejected [OF h, where M = 32 and cs = "[Opt_n 1000]" and ds = "[]"
      and optind = 5 and argc = 5
      and param = "\<lparr>verbose = 0, rtol = NaN, maxtrials = 0, nbatch = 0\<rparr>"]
    by (simp add: mc_param_init_def word_sless_alt)
qed

text \<open>
  Claim C7. For every worker count \<open>n\<close> with \<open>n \<le> 0\<close> or \<open>n > MAX_MC_THREADS\<close> given with
  \<open>-p\<close>, wherever the option stands, \<open>process_args\<close> exits with an error: with the message
  about the range of \<open>nthreads\<close>, unless an option before it has already made it exit.
\<close>

theorem nthreads_out_of_range_exits:
  assumes "n \<le>s 0 \<or> M <s n"
  shows "process_args M (cs @ Opt_p n # ds) optind argc param =
     (case getopt_loop M cs 0 (mc_param_init param) of
        Inl e \<Rightarrow> Inl e
      | Inr st \<Rightarrow> Inl Nthreads_range) \<and>
     isl (process_args M (cs @ Opt_p n # ds) optind argc param)"
  using assms
  by (simp add: process_args_def getopt_loop_append split: sum.splits prod.splits)

theorem nthreads_out_of_range_exits_witness:
  "((33::c_int) \<le>s 0 \<or> (32::c_int) <s 33) \<and>
   process_args 32 [Opt_b 100, Opt_p 33, Opt_v 0] 7 7
     \<lparr>verbose = 0, rtol = NaN, maxtrials = 0, nbatch = 0\<rparr> = Inl Nthreads_range"
proof -
  have h: "(33::c_int) \<le>s 0 \<or> (32::c_int) <s 33"
    by (simp add: word_sless_alt)
  show ?thesis
    using h nthreads_out_of_range_exits [OF h, of "[Opt_b 100]" "[Opt_v 0]" 7 7
      "\<lparr>verbose = 0, rtol = NaN, maxtrials = 0, nbatch = 0\<rparr>"]
    by (simp add: word_sless_alt mc_param_init_def)
qed

text \<open>
  Claim C10. When no \<open>-p\<close> is among the options, \<open>process_args\<close> never reports the error
  about the range of \<open>nthreads\<close>, and when it returns, it returns the worker count 0,
  which is outside \<open>[1, MAX_MC_THREADS]\<close>; so it does for the empty command line.
\<close>

theorem nthreads_default_zero:
  assumes "\<forall>c \<in> set cs. \<forall>n. c \<noteq> Opt_p n"
  shows "(case process_args M cs optind argc param of
           Inl e \<Rightarrow> e \<noteq> Nthreads_range
         | Inr (nthreads, param') \<Rightarrow> nthreads = 0) \<and>
         process_args M [] argc argc param = Inr (0, mc_param_init param)"
  using getopt_loop_no_p [OF assms, where M = M and nthreads = 0 and p = "mc_param_init param"]
  by (simp add: process_args_def split: sum.splits prod.splits)

theorem nthreads_default_zero_witness:
  "process_args 32 [Opt_b 100, Opt_v 0] 5 5 \<lparr>verbose = 7, rtol = NaN, maxtrials = 0, nbatch = 0\<rparr> =
     Inr (0, \<lparr>verbose = 0, rtol = round_to_double (1 / 10000), maxtrials = 10000000,
       nbatch = 100\<rparr>) \<and>
   \<not> (1 \<le>s (0::c_int) \<and> (0::c_int) \<le>s 32)"
proof -
  have h: "\<forall>c \<in> set [Opt_b 100, Opt_v 0]. \<forall>n. c \<noteq> Opt_p n"
    by simp
  show ?thesis
    using nthreads_default_zero [OF h, where M = 32 and optind = 5 and argc = 5
      and param = "\<lparr>verbose = 7, rtol = NaN, maxtrials = 0, nbatch = 0\<rparr>"]
    by (simp add: process_args_def mc_param_init_def word_sless_alt word_sle_eq)
qed

end
